theory Spec2Isabelle
  imports Complex_Main
begin

section \<open>The photo annotation editor (PhotoEditor component)\<close>

text \<open>
  The component keeps its state in React hooks (\<open>activeTool\<close>, \<open>color\<close>, \<open>history\<close>,
  \<open>isDrawing\<close>, \<open>startPos\<close>) and in the 2-D context of one canvas element. Every handler
  runs to completion on the UI thread and the component is rendered again before the next
  event is dispatched, so a handler is modelled as a function from the state before the
  event to the state after it. The canvas element and its context exist from the first
  render on, so the guards \<open>if (canvas && ctx)\<close> of the handlers always pass and are
  left out.

  The coordinates of the pointer are modelled as real numbers: they are only carried
  into path commands, and the geometry of the shapes is the exact geometry of the
  formulas the source writes. In the fit logic of the load handler a comparison selects
  the branch and the result is cut to whole pixels, so there the rounding of the
  arithmetic is not idealised: its operations are parameters of the model.
\<close>

subsection \<open>Data model\<close>

datatype Tool = PEN | CIRCLE | ARROW

type_synonym pos = "real \<times> real"

text \<open>
  A pointer event as \<open>getPos\<close> reads it: the client coordinates of the mouse, or the
  list \<open>touches\<close> whose first contact is used; and the bounding rectangle of the canvas
  at the time of the event, of which only \<open>left\<close> and \<open>top\<close> are read.
\<close>

datatype pointer = Mouse real real | Touch pos "pos list"

type_synonym ui_event = "pointer \<times> pos"

text \<open>
  The 2-D context: the current path as the list of commands issued since the last
  \<open>beginPath\<close>, and the stroke attributes the source sets.
\<close>

datatype path_cmd =
    MoveTo real real
  | LineTo real real
  | Arc real real real real real

datatype line_style = Butt | Miter | Round

record ctx2d =
  path :: "path_cmd list"
  strokeStyle :: string
  lineWidth :: real
  lineCap :: line_style
  lineJoin :: line_style

text \<open>
  The pixel content of the canvas surface is a value of an arbitrary type \<open>'img\<close>; an
  \<open>ImageData\<close> captured by \<open>getImageData(0, 0, canvas.width, canvas.height)\<close> is a copy
  of that content, and \<open>putImageData(snapshot, 0, 0)\<close> overwrites the whole surface with
  it (the dimensions of the canvas change only in the load handler). The rasteriser of
  the browser, \<open>ctx.stroke()\<close>, is a parameter of the model: a function that paints the
  current path with the current attributes onto a pixel content.
\<close>

type_synonym 'img stroker = "ctx2d \<Rightarrow> 'img \<Rightarrow> 'img"

record 'img editor =
  canvas :: 'img
  ctx :: ctx2d
  activeTool :: Tool
  color :: string
  history :: "'img list"
  isDrawing :: bool
  startPos :: pos

subsection \<open>Image load: the fit logic\<close>

text \<open>
  The arithmetic of JavaScript numbers the fit logic uses: the product and the quotient
  of two doubles, each rounded to a double, and the double a decimal literal denotes.
  \<open>exact_ops\<close> is the arithmetic without rounding.
\<close>

record float_ops =
  fmul :: "real \<Rightarrow> real \<Rightarrow> real"
  fdiv :: "real \<Rightarrow> real \<Rightarrow> real"
  flit :: "real \<Rightarrow> real"

definition exact_ops :: float_ops where
  "exact_ops = \<lparr>fmul = (\<lambda>a b. a * b), fdiv = (\<lambda>a b. a / b), flit = (\<lambda>a. a)\<rparr>"

text \<open>
  \<open>fit ops innerWidth innerHeight imgW imgH\<close> is the pair \<open>(width, height)\<close> of the load
  handler after its \<open>if\<close>.
\<close>

definition fit :: "float_ops \<Rightarrow> real \<Rightarrow> real \<Rightarrow> real \<Rightarrow> real \<Rightarrow> real \<times> real" where
  "fit ops innerWidth innerHeight imgW imgH =
     (let maxWidth = innerWidth;
          maxHeight = fmul ops innerHeight (flit ops (7 / 10));
          width = imgW;
          height = imgH
      in if width > maxWidth \<or> height > maxHeight
         then (let ratio = min (fdiv ops maxWidth width) (fdiv ops maxHeight height)
               in (fmul ops width ratio, fmul ops height ratio))
         else (width, height))"

text \<open>
  The assignments \<open>canvas.width = width\<close> and \<open>canvas.height = height\<close>. The attribute
  is an unsigned long that reflects a content attribute with a default value (300 for
  the width, 150 for the height): the number assigned is cut to its integer part and
  taken modulo \<open>2 ^ 32\<close>, and a result above 2147483647 is replaced by the default.
\<close>

definition canvas_dim :: "nat \<Rightarrow> real \<Rightarrow> nat" where
  "canvas_dim dflt v =
     (let n = (if v < 0 then - \<lfloor>- v\<rfloor> else \<lfloor>v\<rfloor>) mod 2 ^ 32
      in if n > 2147483647 then dflt else nat n)"

text \<open>
  The dimensions of the canvas surface after the load handler, for a window of inner
  dimensions \<open>innerWidth\<close>, \<open>innerHeight\<close> and an image of \<open>imgW\<close> by \<open>imgH\<close> pixels.
\<close>

definition canvas_size :: "float_ops \<Rightarrow> nat \<Rightarrow> nat \<Rightarrow> nat \<Rightarrow> nat \<Rightarrow> nat \<times> nat" where
  "canvas_size ops innerWidth innerHeight imgW imgH =
     (let (width, height) = fit ops (real innerWidth) (real innerHeight) (real imgW) (real imgH)
      in (canvas_dim 300 width, canvas_dim 150 height))"

text \<open>The scale the specification names, applied to both dimensions.\<close>

definition spec_fit :: "real \<Rightarrow> real \<Rightarrow> real \<Rightarrow> real \<Rightarrow> real \<times> real" where
  "spec_fit maxW maxH imgW imgH =
     (let scale = min (maxW / imgW) (maxH / imgH) in (imgW * scale, imgH * scale))"

subsection \<open>History store\<close>

text \<open>\<open>xs.slice(-n)\<close> for a positive \<open>n\<close>: the last \<open>n\<close> elements, or all of a shorter list.\<close>

definition slice_last :: "nat \<Rightarrow> 'a list \<Rightarrow> 'a list" where
  "slice_last n xs = drop (length xs - n) xs"

text \<open>The updater of \<open>saveState\<close>: \<open>prev => [...prev.slice(-9), snapshot]\<close>.\<close>

definition push :: "'a list \<Rightarrow> 'a \<Rightarrow> 'a list" where
  "push prev snapshot = slice_last 9 prev @ [snapshot]"

definition saveState :: "'img editor \<Rightarrow> 'img editor" where
  "saveState s = s\<lparr>history := push (history s) (canvas s)\<rparr>"

text \<open>\<open>xs[xs.length - 1]\<close>, which is \<open>undefined\<close> on the empty list.\<close>

definition last_opt :: "'a list \<Rightarrow> 'a option" where
  "last_opt xs = (if xs = [] then None else Some (last xs))"

definition handleUndo :: "'img editor \<Rightarrow> 'img editor" where
  "handleUndo s =
     (if length (history s) \<le> 1 then s
      else (let newHistory = butlast (history s);
                previousState = last_opt newHistory;
                s1 = s\<lparr>history := newHistory\<rparr>
            in case previousState of
                 None \<Rightarrow> s1
               | Some img \<Rightarrow> s1\<lparr>canvas := img\<rparr>))"

subsection \<open>Input normaliser and gesture handlers\<close>

fun getPos :: "ui_event \<Rightarrow> pos" where
  "getPos (Mouse clientX clientY, (rl, rt)) = (clientX - rl, clientY - rt)"
| "getPos (Touch (clientX, clientY) others, (rl, rt)) = (clientX - rl, clientY - rt)"

definition startDrawing :: "ui_event \<Rightarrow> 'img editor \<Rightarrow> 'img editor" where
  "startDrawing e s =
     (let p = getPos e
      in s\<lparr>isDrawing := True,
            startPos := p,
            ctx := (ctx s)\<lparr>path := [MoveTo (fst p) (snd p)],
                            strokeStyle := color s,
                            lineWidth := 4,
                            lineCap := Round,
                            lineJoin := Round\<rparr>\<rparr>)"

text \<open>
  The two shapes, as the commands of \<open>draw\<close> after its \<open>beginPath\<close>: the context \<open>c\<close>
  has an empty path and the attributes set, \<open>img\<close> is the pixel content to paint on.
  The result is the context and the pixel content after the last \<open>stroke\<close>.
\<close>

definition draw_circle :: "'img stroker \<Rightarrow> pos \<Rightarrow> pos \<Rightarrow> ctx2d \<Rightarrow> 'img \<Rightarrow> ctx2d \<times> 'img" where
  "draw_circle stroke sp cp c img =
     (let radius = sqrt ((fst cp - fst sp)\<^sup>2 + (snd cp - snd sp)\<^sup>2);
          c1 = c\<lparr>path := path c @ [Arc (fst sp) (snd sp) radius 0 (2 * pi)]\<rparr>
      in (c1, stroke c1 img))"

text \<open>\<open>Math.atan2(y, x)\<close> on real numbers, with \<open>atan2(0, 0) = 0\<close>.\<close>

definition atan2 :: "real \<Rightarrow> real \<Rightarrow> real" where
  "atan2 b a =
     (if a > 0 then arctan (b / a)
      else if a < 0 \<and> b \<ge> 0 then arctan (b / a) + pi
      else if a < 0 then arctan (b / a) - pi
      else if b > 0 then pi / 2
      else if b < 0 then - (pi / 2)
      else 0)"

definition headLen :: real where
  "headLen = 15"

definition draw_arrow :: "'img stroker \<Rightarrow> pos \<Rightarrow> pos \<Rightarrow> ctx2d \<Rightarrow> 'img \<Rightarrow> ctx2d \<times> 'img" where
  "draw_arrow stroke sp cp c img =
     (let c1 = c\<lparr>path := path c @ [MoveTo (fst sp) (snd sp), LineTo (fst cp) (snd cp)]\<rparr>;
          img1 = stroke c1 img;
          angle = atan2 (snd cp - snd sp) (fst cp - fst sp);
          c2 = c1\<lparr>path :=
                 [MoveTo (fst cp) (snd cp),
                  LineTo (fst cp - headLen * cos (angle - pi / 6))
                         (snd cp - headLen * sin (angle - pi / 6)),
                  MoveTo (fst cp) (snd cp),
                  LineTo (fst cp - headLen * cos (angle + pi / 6))
                         (snd cp - headLen * sin (angle + pi / 6))]\<rparr>
      in (c2, stroke c2 img1))"

text \<open>The branch of \<open>draw\<close> that selects the shape by the active tool.\<close>

definition paint_shape ::
  "'img stroker \<Rightarrow> Tool \<Rightarrow> pos \<Rightarrow> pos \<Rightarrow> ctx2d \<Rightarrow> 'img \<Rightarrow> ctx2d \<times> 'img" where
  "paint_shape stroke tool sp cp c img =
     (if tool = CIRCLE then draw_circle stroke sp cp c img
      else if tool = ARROW then draw_arrow stroke sp cp c img
      else (c, img))"

definition draw :: "'img stroker \<Rightarrow> ui_event \<Rightarrow> 'img editor \<Rightarrow> 'img editor" where
  "draw stroke e s =
     (if \<not> isDrawing s then s
      else (let currentPos = getPos e
            in if activeTool s = PEN
               then (let c1 = (ctx s)\<lparr>path := path (ctx s) @ [LineTo (fst currentPos) (snd currentPos)]\<rparr>
                     in s\<lparr>ctx := c1, canvas := stroke c1 (canvas s)\<rparr>)
               else (let lastState = last_opt (history s);
                         img0 = (case lastState of None \<Rightarrow> canvas s | Some img \<Rightarrow> img);
                         c0 = (ctx s)\<lparr>path := [], strokeStyle := color s, lineWidth := 4\<rparr>;
                         (c1, img1) = paint_shape stroke (activeTool s) (startPos s) currentPos c0 img0
                     in s\<lparr>ctx := c1, canvas := img1\<rparr>)))"

definition stopDrawing :: "'img editor \<Rightarrow> 'img editor" where
  "stopDrawing s = (if isDrawing s then saveState (s\<lparr>isDrawing := False\<rparr>) else s)"

subsection \<open>Export\<close>

text \<open>
  The host is reached only through the two callbacks of the component's properties.
  \<open>handleSave\<close> is given what \<open>canvas.toBlob\<close> passes to its callback, \<open>None\<close> for
  \<open>null\<close>, and returns the callbacks it invokes.
\<close>

datatype 'blob callback = OnSave 'blob | OnCancel

definition handleSave :: "'blob option \<Rightarrow> 'blob callback list" where
  "handleSave blob = (case blob of None \<Rightarrow> [] | Some b \<Rightarrow> [OnSave b])"

text \<open>
  The host (DetailModal) renders the editor while its state \<open>editingPhoto\<close> is set, and
  nothing but its two callbacks clears it. \<open>onCancel\<close> clears it at once.
  \<open>saveEditedPhoto\<close> returns at once when no photo is under edit; otherwise it awaits
  the update of the stored image and clears \<open>editingPhoto\<close> after it, so a rejected
  update leaves the photo under edit. \<open>db_ok b\<close> tells whether the update with the blob
  \<open>b\<close> is fulfilled. \<open>host_after\<close> is \<open>editingPhoto\<close> after the host has handled the
  given callbacks.
\<close>

fun host_after ::
  "('blob \<Rightarrow> bool) \<Rightarrow> 'photo option \<Rightarrow> 'blob callback list \<Rightarrow> 'photo option" where
  "host_after db_ok editingPhoto [] = editingPhoto"
| "host_after db_ok editingPhoto (OnCancel # cs) = host_after db_ok None cs"
| "host_after db_ok editingPhoto (OnSave b # cs) =
     host_after db_ok
       (case editingPhoto of
          None \<Rightarrow> None
        | Some photo \<Rightarrow> if db_ok b then None else Some photo) cs"

subsection \<open>The session as a state machine\<close>

text \<open>
  The state of the component when it is mounted, over a canvas of content \<open>blank\<close>, and
  the load handler: it sizes the canvas to the dimensions \<open>fit\<close> computes (which
  resets the context), draws the image, giving the content \<open>px\<close>, and saves the
  initial state.
\<close>

definition default_ctx :: ctx2d where
  "default_ctx = \<lparr>path = [], strokeStyle = ''#000000'', lineWidth = 1,
                  lineCap = Butt, lineJoin = Miter\<rparr>"

definition mounted :: "'img \<Rightarrow> 'img editor" where
  "mounted blank = \<lparr>canvas = blank, ctx = default_ctx, activeTool = PEN,
                    color = ''#FF0000'', history = [], isDrawing = False,
                    startPos = (0, 0)\<rparr>"

definition img_onload :: "'img \<Rightarrow> 'img editor \<Rightarrow> 'img editor" where
  "img_onload px s = saveState (s\<lparr>canvas := px, ctx := default_ctx\<rparr>)"

definition opened :: "'img \<Rightarrow> 'img editor" where
  "opened px = img_onload px (mounted px)"

text \<open>
  The inputs the editor receives once the image is loaded: the pointer handlers bound
  on the canvas (\<open>onMouseLeave\<close> is bound to \<open>stopDrawing\<close> as \<open>onMouseUp\<close> is), the
  undo button, and the tool and colour buttons.
\<close>

datatype input =
    Down ui_event
  | Move ui_event
  | Up
  | Leave
  | Undo
  | SelectTool Tool
  | SelectColor string

fun step :: "'img stroker \<Rightarrow> 'img editor \<Rightarrow> input \<Rightarrow> 'img editor" where
  "step stroke s (Down e) = startDrawing e s"
| "step stroke s (Move e) = draw stroke e s"
| "step stroke s Up = stopDrawing s"
| "step stroke s Leave = stopDrawing s"
| "step stroke s Undo = handleUndo s"
| "step stroke s (SelectTool t) = s\<lparr>activeTool := t\<rparr>"
| "step stroke s (SelectColor c) = s\<lparr>color := c\<rparr>"

definition run :: "'img stroker \<Rightarrow> 'img editor \<Rightarrow> input list \<Rightarrow> 'img editor" where
  "run stroke s ins = foldl (step stroke) s ins"

text \<open>
  A rasteriser for evaluating the model on concrete inputs: the pixel content is the
  list of strokes painted so far, each with the path and attributes it was painted with.
\<close>

definition log_stroke :: "(ctx2d list) stroker" where
  "log_stroke c img = img @ [c]"

definition mouse_at :: "real \<Rightarrow> real \<Rightarrow> ui_event" where
  "mouse_at a b = (Mouse a b, (0, 0))"

text \<open>A session of one pen stroke from (5, 5) to (50, 50) on a loaded image.\<close>

definition pen_session :: "(ctx2d list) editor" where
  "pen_session =
     run log_stroke (opened []) [Down (mouse_at 5 5), Move (mouse_at 50 50), Up]"

text \<open>
  A state whose history is what twelve pushes leave, the snapshots numbered in the
  order they were pushed, and whose canvas shows the last of them.
\<close>

definition twelve_pushes :: "nat editor" where
  "twelve_pushes =
     \<lparr>canvas = 12, ctx = default_ctx, activeTool = PEN, color = ''#FF0000'',
      history = foldl push [] [1, 2, 3, 4, 5, 6, 7, 8, 9, 10, 11, 12],
      isDrawing = False, startPos = (0, 0)\<rparr>"

text \<open>
  The attributes of the context while a shape is painted: round caps and joins from
  \<open>startDrawing\<close>, colour and width from \<open>draw\<close>, and the path begun anew.
\<close>

definition shape_ctx :: "string \<Rightarrow> ctx2d" where
  "shape_ctx col = \<lparr>path = [], strokeStyle = col, lineWidth = 4,
                     lineCap = Round, lineJoin = Round\<rparr>"

text \<open>
  The Euclidean distance of two points, as the distance of the complex numbers they
  are; and the point at the distance \<open>len\<close> from \<open>p\<close> in the direction of the angle
  \<open>phi\<close>.
\<close>

definition distance :: "pos \<Rightarrow> pos \<Rightarrow> real" where
  "distance p q = dist (Complex (fst p) (snd p)) (Complex (fst q) (snd q))"

definition toward :: "pos \<Rightarrow> real \<Rightarrow> real \<Rightarrow> pos" where
  "toward p len phi = (fst p + len * cos phi, snd p + len * sin phi)"

text \<open>The invariant of the session.\<close>

definition settled :: "'img editor \<Rightarrow> bool" where
  "settled s \<longleftrightarrow> history s \<noteq> [] \<and> (\<not> isDrawing s \<longrightarrow> canvas s = last (history s))"

text \<open>
  The states of one gesture that started in the state \<open>s\<close> at the anchor \<open>a\<close>: what
  \<open>startDrawing\<close> establishes and the move handler keeps.
\<close>

definition in_gesture :: "'img editor \<Rightarrow> pos \<Rightarrow> 'img editor \<Rightarrow> bool" where
  "in_gesture s a g \<longleftrightarrow>
     isDrawing g \<and> activeTool g = activeTool s \<and> color g = color s
     \<and> history g = history s \<and> startPos g = a
     \<and> lineCap (ctx g) = Round \<and> lineJoin (ctx g) = Round"

text \<open>The pen session continued: the circle tool is selected.\<close>

definition circle_ready :: "(ctx2d list) editor" where
  "circle_ready = step log_stroke pen_session (SelectTool CIRCLE)"

text \<open>The same with the arrow tool; and each with a gesture started.\<close>

definition arrow_ready :: "(ctx2d list) editor" where
  "arrow_ready = step log_stroke pen_session (SelectTool ARROW)"

definition circle_started :: "(ctx2d list) editor" where
  "circle_started = step log_stroke circle_ready (Down (mouse_at 10 10))"

definition arrow_started :: "(ctx2d list) editor" where
  "arrow_started = step log_stroke arrow_ready (Down (mouse_at 0 0))"

section \<open>History store: cap and undo\<close>

lemma slice_last_short: "length xs \<le> n \<Longrightarrow> slice_last n xs = xs"
  by (simp add: slice_last_def)

lemma length_slice_last: "length (slice_last n xs) = min n (length xs)"
  by (simp add: slice_last_def)

lemma slice_last_append_one:
  "slice_last n xs @ [x] = slice_last (Suc n) (xs @ [x])"
  by (simp add: slice_last_def Suc_diff_le)

lemma slice_last_idem_append:
  "slice_last n (slice_last n xs @ ys) = slice_last n (xs @ ys)"
  by (cases "length xs \<le> n") (simp_all add: slice_last_def add.commute)

lemma push_eq: "push prev x = slice_last 10 (prev @ [x])"
  using slice_last_append_one [of 9 prev x] by (simp add: push_def)

lemma foldl_push:
  "xs \<noteq> [] \<Longrightarrow> foldl push h xs = slice_last 10 (h @ xs)"
proof (induction xs arbitrary: h)
  case Nil
  then show ?case by simp
next
  case (Cons x xs)
  show ?case
  proof (cases "xs = []")
    case True
    then show ?thesis by (simp add: push_eq)
  next
    case False
    then have "foldl push (push h x) xs = slice_last 10 (push h x @ xs)"
      by (rule Cons.IH)
    also have "\<dots> = slice_last 10 ((h @ [x]) @ xs)"
      unfolding push_eq by (rule slice_last_idem_append)
    finally show ?thesis by simp
  qed
qed

lemma foldl_push_many:
  assumes "10 < length xs"
  shows "foldl push h xs = drop (length xs - 10) xs"
proof -
  from assms have "xs \<noteq> []" by auto
  then have "foldl push h xs = slice_last 10 (h @ xs)" by (rule foldl_push)
  also from assms have "\<dots> = drop (length xs - 10) xs"
    by (simp add: slice_last_def)
  finally show ?thesis .
qed

lemma push_cases:
  "length h \<le> 10 \<Longrightarrow> push h x = (if length h < 10 then h @ [x] else tl h @ [x])"
  by (auto simp: push_def slice_last_def drop_Suc)

lemma handleUndo_floor: "length (history s) \<le> 1 \<Longrightarrow> handleUndo s = s"
  by (simp add: handleUndo_def)

lemma handleUndo_pop:
  assumes "2 \<le> length (history s)"
  shows "handleUndo s = s\<lparr>history := butlast (history s), canvas := last (butlast (history s))\<rparr>"
proof -
  from assms have "butlast (history s) \<noteq> []"
    by (cases "history s" rule: rev_cases) auto
  with assms show ?thesis
    by (simp add: handleUndo_def last_opt_def Let_def)
qed

lemma handleUndo_funpow_floor:
  "length (history s) \<le> 1 \<Longrightarrow> (handleUndo ^^ n) s = s"
  by (induction n) (simp_all add: handleUndo_floor)

lemma handleUndo_history_nonempty:
  "history s \<noteq> [] \<Longrightarrow> history (handleUndo s) \<noteq> []"
proof (cases "2 \<le> length (history s)")
  case True
  then have "butlast (history s) \<noteq> []"
    by (cases "history s" rule: rev_cases) auto
  with True show ?thesis by (simp add: handleUndo_pop)
next
  case False
  assume "history s \<noteq> []"
  with False show ?thesis by (simp add: handleUndo_floor)
qed

lemma handleUndo_funpow_nonempty:
  "history s \<noteq> [] \<Longrightarrow> history ((handleUndo ^^ n) s) \<noteq> []"
  by (induction n) (simp_all add: handleUndo_history_nonempty)

lemma handleUndo_within:
  assumes "set (history s) \<subseteq> A" and "canvas s \<in> A"
  shows "set (history (handleUndo s)) \<subseteq> A \<and> canvas (handleUndo s) \<in> A"
proof (cases "2 \<le> length (history s)")
  case True
  then have ne: "butlast (history s) \<noteq> []"
    by (cases "history s" rule: rev_cases) auto
  have sub: "set (butlast (history s)) \<subseteq> set (history s)"
    by (auto dest: in_set_butlastD)
  from ne have "last (butlast (history s)) \<in> set (butlast (history s))"
    by (rule last_in_set)
  with sub assms True show ?thesis
    by (auto simp: handleUndo_pop)
next
  case False
  with assms show ?thesis by (simp add: handleUndo_floor)
qed

lemma handleUndo_funpow_within:
  assumes "set (history s) \<subseteq> A" and "canvas s \<in> A"
  shows "set (history ((handleUndo ^^ n) s)) \<subseteq> A \<and> canvas ((handleUndo ^^ n) s) \<in> A"
proof (induction n)
  case 0
  from assms show ?case by simp
next
  case (Suc n)
  then show ?case using handleUndo_within [of "(handleUndo ^^ n) s" A] by simp
qed

lemmas model_defs =
  run_def opened_def img_onload_def mounted_def default_ctx_def saveState_def push_def
  slice_last_def startDrawing_def draw_def stopDrawing_def handleUndo_def last_opt_def
  draw_circle_def draw_arrow_def paint_shape_def log_stroke_def mouse_at_def Let_def

lemma pen_session_eval:
  "pen_session =
     \<lparr>canvas = [\<lparr>path = [MoveTo 5 5, LineTo 50 50], strokeStyle = ''#FF0000'',
                  lineWidth = 4, lineCap = Round, lineJoin = Round\<rparr>],
      ctx = \<lparr>path = [MoveTo 5 5, LineTo 50 50], strokeStyle = ''#FF0000'',
              lineWidth = 4, lineCap = Round, lineJoin = Round\<rparr>,
      activeTool = PEN, color = ''#FF0000'',
      history = [[], [\<lparr>path = [MoveTo 5 5, LineTo 50 50], strokeStyle = ''#FF0000'',
                        lineWidth = 4, lineCap = Round, lineJoin = Round\<rparr>]],
      isDrawing = False, startPos = (5, 5)\<rparr>"
  by (simp add: pen_session_def model_defs)

text \<open>
  C3. Undo contract. With at least two entries in the history, undo removes the most
  recent snapshot and repaints the canvas from the new most recent one, changing nothing
  else. With at most one entry, undo returns the state as it is, so any number of undos
  at the floor leaves the state, and the canvas in it, unchanged; and no number of undos
  empties a history that holds an entry.
\<close>

theorem undo_contract:
  "(2 \<le> length (history s) \<longrightarrow>
      handleUndo s = s\<lparr>history := butlast (history s),
                        canvas := last (butlast (history s))\<rparr>)
   \<and> (length (history s) \<le> 1 \<longrightarrow> handleUndo s = s \<and> (handleUndo ^^ n) s = s)
   \<and> (history s \<noteq> [] \<longrightarrow> history ((handleUndo ^^ n) s) \<noteq> [])"
  by (simp add: handleUndo_pop handleUndo_floor handleUndo_funpow_floor
      handleUndo_funpow_nonempty)

theorem undo_contract_witness:
  "2 \<le> length (history pen_session)
   \<and> history (handleUndo pen_session) = [[]]
   \<and> canvas (handleUndo pen_session) = []
   \<and> length (history (opened ([] :: ctx2d list))) \<le> 1
   \<and> (handleUndo ^^ 3) (opened ([] :: ctx2d list)) = opened []
   \<and> history ((handleUndo ^^ 3) pen_session) \<noteq> []"
  using undo_contract [of pen_session 3] undo_contract [of "opened ([] :: ctx2d list)" 3]
  by (simp add: pen_session_eval) (simp add: model_defs)

text \<open>
  C4. History cap. \<open>saveState\<close> pushes the content of the canvas. A push onto a history
  within the cap of 10 appends the snapshot, and evicts the oldest entry when the history
  is full. After more than 10 pushes, from any history, the history is exactly the last
  10 snapshots pushed, in the order they were pushed. From a state with that history
  whose canvas shows the last snapshot, any number of undos leaves a history and a canvas
  made of these 10 snapshots only: an evicted snapshot is never reached.
\<close>

theorem history_cap:
  "history (saveState s) = push (history s) (canvas s)
   \<and> (length h \<le> 10 \<longrightarrow> push h x = (if length h < 10 then h @ [x] else tl h @ [x]))
   \<and> (10 < length xs \<longrightarrow>
        foldl push h xs = drop (length xs - 10) xs \<and> length (foldl push h xs) = 10)
   \<and> (10 < length xs \<and> history s = foldl push h xs \<and> canvas s = last xs \<longrightarrow>
        set (history ((handleUndo ^^ n) s)) \<subseteq> set (drop (length xs - 10) xs)
        \<and> canvas ((handleUndo ^^ n) s) \<in> set (drop (length xs - 10) xs))"
proof -
  have a: "history (saveState s) = push (history s) (canvas s)"
    by (simp add: saveState_def)
  have b: "length h \<le> 10 \<longrightarrow> push h x = (if length h < 10 then h @ [x] else tl h @ [x])"
    using push_cases [of h x] by blast
  have c: "10 < length xs \<longrightarrow>
      foldl push h xs = drop (length xs - 10) xs \<and> length (foldl push h xs) = 10"
    using foldl_push_many [of xs h] by auto
  have d: "set (history ((handleUndo ^^ n) s)) \<subseteq> set (drop (length xs - 10) xs)
      \<and> canvas ((handleUndo ^^ n) s) \<in> set (drop (length xs - 10) xs)"
    if len: "10 < length xs" and hist: "history s = foldl push h xs"
      and cv: "canvas s = last xs"
  proof (rule handleUndo_funpow_within)
    from len hist show "set (history s) \<subseteq> set (drop (length xs - 10) xs)"
      by (simp add: foldl_push_many)
    from len have "drop (length xs - 10) xs \<noteq> []" by simp
    then have "last (drop (length xs - 10) xs) \<in> set (drop (length xs - 10) xs)"
      by (rule last_in_set)
    moreover from len have "last (drop (length xs - 10) xs) = last xs"
      by simp
    ultimately show "canvas s \<in> set (drop (length xs - 10) xs)"
      using cv by simp
  qed
  from a b c d show ?thesis by blast
qed

theorem history_cap_witness:
  "push [1, 2, 3, 4, 5, 6, 7, 8, 9, 10] (11 :: nat) = [2, 3, 4, 5, 6, 7, 8, 9, 10, 11]
   \<and> foldl push [0] [1, 2, 3, 4, 5, 6, 7, 8, 9, 10, 11, 12 :: nat]
       = [3, 4, 5, 6, 7, 8, 9, 10, 11, 12]
   \<and> 10 < length [1, 2, 3, 4, 5, 6, 7, 8, 9, 10, 11, 12 :: nat]
   \<and> history twelve_pushes = foldl push [] [1, 2, 3, 4, 5, 6, 7, 8, 9, 10, 11, 12]
   \<and> canvas twelve_pushes = last [1, 2, 3, 4, 5, 6, 7, 8, 9, 10, 11, 12]
   \<and> set (history ((handleUndo ^^ 4) twelve_pushes)) \<subseteq> {3, 4, 5, 6, 7, 8, 9, 10, 11, 12}
   \<and> canvas ((handleUndo ^^ 4) twelve_pushes) \<in> {3, 4, 5, 6, 7, 8, 9, 10, 11, 12}"
proof -
  let ?xs = "[1, 2, 3, 4, 5, 6, 7, 8, 9, 10, 11, 12 :: nat]"
  have len: "10 < length ?xs" by simp
  have hist: "history twelve_pushes = foldl push [] ?xs"
    and cv: "canvas twelve_pushes = last ?xs"
    by (simp_all add: twelve_pushes_def)
  have one: "push [1, 2, 3, 4, 5, 6, 7, 8, 9, 10] (11 :: nat) = [2, 3, 4, 5, 6, 7, 8, 9, 10, 11]"
    using history_cap [of twelve_pushes "[1, 2, 3, 4, 5, 6, 7, 8, 9, 10]" 11 ?xs 4]
    by simp
  have many: "foldl push [0] ?xs = [3, 4, 5, 6, 7, 8, 9, 10, 11, 12]"
    using history_cap [of twelve_pushes "[0]" 11 ?xs 4] by simp
  from history_cap [of twelve_pushes "[]" 11 ?xs 4] len hist cv
  have "set (history ((handleUndo ^^ 4) twelve_pushes)) \<subseteq> set (drop (length ?xs - 10) ?xs)
      \<and> canvas ((handleUndo ^^ 4) twelve_pushes) \<in> set (drop (length ?xs - 10) ?xs)"
    by blast
  then have undo: "set (history ((handleUndo ^^ 4) twelve_pushes)) \<subseteq> {3, 4, 5, 6, 7, 8, 9, 10, 11, 12}
      \<and> canvas ((handleUndo ^^ 4) twelve_pushes) \<in> {3, 4, 5, 6, 7, 8, 9, 10, 11, 12}"
    by simp
  from one many len hist cv undo show ?thesis by blast
qed

section \<open>The session invariant\<close>

lemma last_push [simp]: "last (push h x) = x"
  by (simp add: push_def)

lemma push_nonempty [simp]: "push h x \<noteq> []"
  by (simp add: push_def)

lemma settled_opened: "settled (opened px)"
  by (simp add: settled_def opened_def img_onload_def saveState_def mounted_def)

lemma settled_startDrawing: "settled s \<Longrightarrow> settled (startDrawing e s)"
  by (simp add: settled_def startDrawing_def Let_def)

lemma draw_keeps:
  "history (draw stroke e s) = history s \<and> isDrawing (draw stroke e s) = isDrawing s
   \<and> startPos (draw stroke e s) = startPos s \<and> activeTool (draw stroke e s) = activeTool s
   \<and> color (draw stroke e s) = color s"
  by (simp add: draw_def Let_def split: prod.splits)

lemma settled_draw: "settled s \<Longrightarrow> settled (draw stroke e s)"
proof (cases "isDrawing s")
  case True
  assume "settled s"
  with True show ?thesis by (simp add: settled_def draw_keeps)
next
  case False
  assume "settled s"
  with False show ?thesis by (simp add: draw_def)
qed

lemma stopDrawing_idle [simp]: "\<not> isDrawing (stopDrawing s)"
  by (simp add: stopDrawing_def saveState_def)

lemma stopDrawing_top:
  "settled s \<Longrightarrow> canvas (stopDrawing s) = last (history (stopDrawing s))"
  by (simp add: settled_def stopDrawing_def saveState_def)

lemma settled_stopDrawing: "settled s \<Longrightarrow> settled (stopDrawing s)"
  by (simp add: settled_def stopDrawing_def saveState_def)

lemma settled_handleUndo: "settled s \<Longrightarrow> settled (handleUndo s)"
proof (cases "2 \<le> length (history s)")
  case True
  then have "butlast (history s) \<noteq> []"
    by (cases "history s" rule: rev_cases) auto
  with True show ?thesis by (simp add: settled_def handleUndo_pop)
next
  case False
  assume "settled s"
  with False show ?thesis by (simp add: handleUndo_floor)
qed

lemma settled_step: "settled s \<Longrightarrow> settled (step stroke s i)"
  by (cases i)
    (simp_all add: settled_startDrawing settled_draw settled_stopDrawing settled_handleUndo,
      simp_all add: settled_def)

lemma settled_run: "settled s \<Longrightarrow> settled (run stroke s ins)"
  unfolding run_def
  by (induction ins arbitrary: s) (simp_all add: settled_step)

lemma settled_session: "settled (run stroke (opened px) ins)"
  by (rule settled_run) (rule settled_opened)

text \<open>
  C1. Quiescence invariant. In every state the session reaches from the loaded image,
  by any sequence of gesture starts, moves, ends, pointer leaves, undos and tool or
  colour selections, the history holds an entry and, when no gesture is active, the
  content of the canvas is the most recent snapshot. In particular this holds right
  after a gesture end, which always leaves no gesture active, and after an undo made
  while no gesture is active.
\<close>

theorem quiescence_invariant:
  assumes "s = run stroke (opened px) ins"
  shows "history s \<noteq> []
    \<and> (\<not> isDrawing s \<longrightarrow> canvas s = last (history s))
    \<and> \<not> isDrawing (stopDrawing s)
    \<and> canvas (stopDrawing s) = last (history (stopDrawing s))
    \<and> (\<not> isDrawing s \<longrightarrow>
         \<not> isDrawing (handleUndo s) \<and> canvas (handleUndo s) = last (history (handleUndo s)))"
proof -
  from assms have st: "settled s" by (simp add: settled_session)
  then have undo: "settled (handleUndo s)" by (rule settled_handleUndo)
  have idle: "isDrawing (handleUndo s) = isDrawing s"
    by (simp add: handleUndo_def Let_def split: option.splits)
  from st have "history s \<noteq> []" and "\<not> isDrawing s \<longrightarrow> canvas s = last (history s)"
    by (simp_all add: settled_def)
  moreover from st have "canvas (stopDrawing s) = last (history (stopDrawing s))"
    by (rule stopDrawing_top)
  moreover from undo idle
  have "\<not> isDrawing s \<longrightarrow>
      \<not> isDrawing (handleUndo s) \<and> canvas (handleUndo s) = last (history (handleUndo s))"
    by (simp add: settled_def)
  ultimately show ?thesis by simp
qed

theorem quiescence_invariant_witness:
  "\<not> isDrawing (run log_stroke (opened [])
       [Down (mouse_at 5 5), Move (mouse_at 50 50), Up, SelectTool CIRCLE,
        Down (mouse_at 10 10), Move (mouse_at 30 10), Move (mouse_at 10 20), Leave, Undo])
   \<and> canvas (run log_stroke (opened [])
       [Down (mouse_at 5 5), Move (mouse_at 50 50), Up, SelectTool CIRCLE,
        Down (mouse_at 10 10), Move (mouse_at 30 10), Move (mouse_at 10 20), Leave, Undo])
     = last (history (run log_stroke (opened [])
       [Down (mouse_at 5 5), Move (mouse_at 50 50), Up, SelectTool CIRCLE,
        Down (mouse_at 10 10), Move (mouse_at 30 10), Move (mouse_at 10 20), Leave, Undo]))"
  using quiescence_invariant [OF refl, of log_stroke "[]"
      "[Down (mouse_at 5 5), Move (mouse_at 50 50), Up, SelectTool CIRCLE,
        Down (mouse_at 10 10), Move (mouse_at 30 10), Move (mouse_at 10 20), Leave, Undo]"]
  by (simp add: model_defs)

section \<open>Gestures\<close>

lemma run_Nil [simp]: "run stroke s [] = s"
  by (simp add: run_def)

lemma run_Cons [simp]: "run stroke s (i # ins) = run stroke (step stroke s i) ins"
  by (simp add: run_def)

lemma run_append: "run stroke s (ins @ ins') = run stroke (run stroke s ins) ins'"
  by (simp add: run_def)

lemma length_push: "length (push h x) = min 10 (Suc (length h))"
  by (simp add: push_def slice_last_def)

text \<open>
  C10. A tap. In every state the session reaches with no gesture active, a gesture
  start followed at once by a gesture end leaves the content of the canvas as it was and
  pushes it as a new snapshot, equal to the previous most recent one; the history grows
  by one entry, up to the cap of 10, where the oldest entry is evicted for it. An undo
  after the tap only removes that snapshot and shows the same content again.
\<close>

theorem tap_pushes_snapshot:
  assumes "s = run stroke (opened px) ins" and "\<not> isDrawing s"
  shows "canvas (run stroke s [Down e, Up]) = canvas s
    \<and> history (run stroke s [Down e, Up]) = push (history s) (canvas s)
    \<and> last (history (run stroke s [Down e, Up])) = last (history s)
    \<and> length (history (run stroke s [Down e, Up])) = min 10 (Suc (length (history s)))
    \<and> \<not> isDrawing (run stroke s [Down e, Up])
    \<and> canvas (run stroke s [Down e, Up, Undo]) = canvas s"
proof -
  let ?t = "stopDrawing (startDrawing e s)"
  have tap: "run stroke s [Down e, Up] = ?t"
    and tap_undo: "run stroke s [Down e, Up, Undo] = handleUndo ?t"
    by simp_all
  from assms have st: "settled s" by (simp add: settled_session)
  with assms(2) have top: "canvas s = last (history s)" and ne: "history s \<noteq> []"
    by (simp_all add: settled_def)
  have cv: "canvas ?t = canvas s" and hist: "history ?t = push (history s) (canvas s)"
    and idle: "\<not> isDrawing ?t"
    by (simp_all add: startDrawing_def stopDrawing_def saveState_def Let_def)
  from hist top have lst: "last (history ?t) = last (history s)" by simp
  from hist have len: "length (history ?t) = min 10 (Suc (length (history s)))"
    by (simp add: length_push)
  have undone: "canvas (handleUndo ?t) = canvas s"
  proof (cases "2 \<le> length (history ?t)")
    case True
    from ne have less: "length (history s) - 9 < length (history s)"
      by (cases "history s") simp_all
    then have "slice_last 9 (history s) \<noteq> []"
      by (simp add: slice_last_def)
    moreover from less have "last (slice_last 9 (history s)) = last (history s)"
      by (simp add: slice_last_def)
    ultimately have "last (butlast (history ?t)) = last (history s)"
      by (simp add: hist push_def)
    with True top show ?thesis by (simp add: handleUndo_pop)
  next
    case False
    with cv show ?thesis by (simp add: handleUndo_floor)
  qed
  from cv hist lst len idle undone show ?thesis
    unfolding tap tap_undo by blast
qed

theorem tap_pushes_snapshot_witness:
  "\<not> isDrawing pen_session
   \<and> canvas (run log_stroke pen_session [Down (mouse_at 7 7), Up]) = canvas pen_session
   \<and> length (history (run log_stroke pen_session [Down (mouse_at 7 7), Up])) = 3
   \<and> history (run log_stroke pen_session [Down (mouse_at 7 7), Up])
       = history pen_session @ [canvas pen_session]"
  using tap_pushes_snapshot [of pen_session log_stroke "[]"
      "[Down (mouse_at 5 5), Move (mouse_at 50 50), Up]" "mouse_at 7 7"]
  by (simp add: pen_session_def [symmetric]) (simp add: pen_session_eval model_defs)

text \<open>
  C5, as stated: a gesture start while a gesture is active is ignored. It fails: after a
  gesture has started at (1, 1), a second gesture start at (5, 5) moves the anchor and
  begins the path anew there.
\<close>

theorem nested_start_counterexample:
  "isDrawing (startDrawing (mouse_at 1 1) (opened (0 :: nat)))
   \<and> startPos (startDrawing (mouse_at 1 1) (opened (0 :: nat))) = (1, 1)
   \<and> startPos (startDrawing (mouse_at 5 5) (startDrawing (mouse_at 1 1) (opened (0 :: nat))))
       = (5, 5)
   \<and> path (ctx (startDrawing (mouse_at 5 5) (startDrawing (mouse_at 1 1) (opened (0 :: nat)))))
       = [MoveTo 5 5]
   \<and> startDrawing (mouse_at 5 5) (startDrawing (mouse_at 1 1) (opened (0 :: nat)))
       \<noteq> startDrawing (mouse_at 1 1) (opened (0 :: nat))"
proof -
  let ?g = "startDrawing (mouse_at 1 1) (opened (0 :: nat))"
  have a: "isDrawing ?g" and b: "startPos ?g = (1, 1)"
    and c: "startPos (startDrawing (mouse_at 5 5) ?g) = (5, 5)"
    and d: "path (ctx (startDrawing (mouse_at 5 5) ?g)) = [MoveTo 5 5]"
    by (simp_all add: startDrawing_def mouse_at_def Let_def)
  from b c have "startDrawing (mouse_at 5 5) ?g \<noteq> ?g" by auto
  with a b c d show ?thesis by blast
qed

text \<open>
  C5, amended. The start handler has no guard on an active gesture. A gesture start
  while a gesture is active leaves the state machine in the gesturing state, records the
  anchor anew at the normalised position of the event and begins the path anew at that
  point, with the active colour; the content of the canvas, the history, the tool and the
  colour are unchanged.
\<close>

theorem nested_start_restarts:
  assumes "isDrawing s"
  shows "startDrawing e s =
      s\<lparr>startPos := getPos e,
        ctx := (ctx s)\<lparr>path := [MoveTo (fst (getPos e)) (snd (getPos e))],
                        strokeStyle := color s, lineWidth := 4,
                        lineCap := Round, lineJoin := Round\<rparr>\<rparr>
    \<and> isDrawing (startDrawing e s)
    \<and> startPos (startDrawing e s) = getPos e
    \<and> path (ctx (startDrawing e s)) = [MoveTo (fst (getPos e)) (snd (getPos e))]
    \<and> canvas (startDrawing e s) = canvas s
    \<and> history (startDrawing e s) = history s"
  using assms by (simp add: startDrawing_def Let_def)

theorem nested_start_restarts_witness:
  "isDrawing (startDrawing (mouse_at 1 1) (opened (0 :: nat)))
   \<and> isDrawing (startDrawing (mouse_at 5 5) (startDrawing (mouse_at 1 1) (opened (0 :: nat))))
   \<and> path (ctx (startDrawing (mouse_at 5 5) (startDrawing (mouse_at 1 1) (opened (0 :: nat)))))
       = [MoveTo 5 5]
   \<and> history (startDrawing (mouse_at 5 5) (startDrawing (mouse_at 1 1) (opened (0 :: nat))))
       = [0]"
proof -
  let ?g = "startDrawing (mouse_at 1 1) (opened (0 :: nat))"
  have g: "isDrawing ?g" by (simp add: startDrawing_def Let_def)
  have h: "history ?g = [0]" by (simp add: model_defs)
  have p: "getPos (mouse_at 5 5) = (5, 5)" by (simp add: mouse_at_def)
  from nested_start_restarts [OF g, of "mouse_at 5 5"] g h p show ?thesis by simp
qed

section \<open>Geometry of the shapes\<close>

lemma sqrt_one_plus_sq:
  fixes a b :: real
  assumes "a \<noteq> 0"
  shows "sqrt (1 + (b / a)\<^sup>2) = sqrt (a\<^sup>2 + b\<^sup>2) / \<bar>a\<bar>"
proof -
  from assms have "1 + (b / a)\<^sup>2 = (a\<^sup>2 + b\<^sup>2) / a\<^sup>2"
    by (simp add: power_divide add_divide_distrib)
  then show ?thesis
    by (simp add: real_sqrt_divide)
qed

lemma cos_atan2:
  assumes "(a, b) \<noteq> (0, 0)"
  shows "cos (atan2 b a) = a / sqrt (a\<^sup>2 + b\<^sup>2)"
proof -
  consider "a > 0" | "a < 0" | "a = 0" "b \<noteq> 0" using assms by force
  then show ?thesis
  proof cases
    case 1
    then show ?thesis
      by (simp add: atan2_def cos_arctan sqrt_one_plus_sq)
  next
    case 2
    then show ?thesis
      by (simp add: atan2_def cos_arctan sqrt_one_plus_sq)
  next
    case 3
    then show ?thesis
      by (auto simp: atan2_def)
  qed
qed

lemma sin_atan2:
  assumes "(a, b) \<noteq> (0, 0)"
  shows "sin (atan2 b a) = b / sqrt (a\<^sup>2 + b\<^sup>2)"
proof -
  consider "a > 0" | "a < 0" | "a = 0" "b \<noteq> 0" using assms by force
  then show ?thesis
  proof cases
    case 1
    then show ?thesis
      by (simp add: atan2_def sin_arctan sqrt_one_plus_sq)
  next
    case 2
    then show ?thesis
      by (simp add: atan2_def sin_arctan sqrt_one_plus_sq)
  next
    case 3
    then show ?thesis
      by (auto simp: atan2_def)
  qed
qed

lemma distance_sqrt:
  "distance p q = sqrt ((fst q - fst p)\<^sup>2 + (snd q - snd p)\<^sup>2)"
  by (simp add: distance_def dist_norm cmod_def power2_commute)

lemma distance_toward: "0 \<le> len \<Longrightarrow> distance p (toward p len phi) = len"
proof -
  have "(len * cos phi)\<^sup>2 + (len * sin phi)\<^sup>2 = len\<^sup>2 * ((cos phi)\<^sup>2 + (sin phi)\<^sup>2)"
    by (simp only: power_mult_distrib distrib_left)
  also have "\<dots> = len\<^sup>2"
    by simp
  finally have "(len * cos phi)\<^sup>2 + (len * sin phi)\<^sup>2 = len\<^sup>2" .
  moreover assume "0 \<le> len"
  ultimately show ?thesis
    by (simp add: distance_sqrt toward_def)
qed

lemma toward_back:
  assumes "sp \<noteq> cp"
  shows "toward cp (distance cp sp) (atan2 (snd cp - snd sp) (fst cp - fst sp) + pi) = sp"
proof -
  let ?a = "fst cp - fst sp" and ?b = "snd cp - snd sp"
  let ?r = "sqrt (?a\<^sup>2 + ?b\<^sup>2)"
  from assms have nz: "(?a, ?b) \<noteq> (0, 0)"
    by (auto simp: prod_eq_iff)
  then have "?a\<^sup>2 + ?b\<^sup>2 \<noteq> 0" by auto
  then have r: "?r \<noteq> 0" by simp
  have d: "distance cp sp = ?r"
    by (simp add: distance_sqrt power2_commute)
  from r have "?r * (?a / ?r) = ?a" and "?r * (?b / ?r) = ?b" by simp_all
  then show ?thesis
    unfolding toward_def d
    by (simp add: cos_atan2 [OF nz] sin_atan2 [OF nz] prod_eq_iff)
qed

lemma chevron_eq:
  "(fst cp - headLen * cos (t - pi / 6), snd cp - headLen * sin (t - pi / 6))
     = toward cp 15 (t + pi - pi / 6)"
  "(fst cp - headLen * cos (t + pi / 6), snd cp - headLen * sin (t + pi / 6))
     = toward cp 15 (t + pi + pi / 6)"
proof -
  have "t + pi - pi / 6 = (t - pi / 6) + pi" and "t + pi + pi / 6 = (t + pi / 6) + pi"
    by simp_all
  then show "(fst cp - headLen * cos (t - pi / 6), snd cp - headLen * sin (t - pi / 6))
     = toward cp 15 (t + pi - pi / 6)"
    "(fst cp - headLen * cos (t + pi / 6), snd cp - headLen * sin (t + pi / 6))
     = toward cp 15 (t + pi + pi / 6)"
    by (simp_all only: toward_def headLen_def cos_periodic_pi sin_periodic_pi fst_conv snd_conv)
      simp_all
qed

lemma toward_150: "toward (100, 0) 15 (pi - pi / 6) = (100 - 15 * (sqrt 3 / 2), 15 / 2)"
  by (simp only: toward_def cos_pi_minus sin_pi_minus cos_30 sin_30 fst_conv snd_conv) simp

lemma toward_210: "toward (100, 0) 15 (pi + pi / 6) = (100 - 15 * (sqrt 3 / 2), - (15 / 2))"
  by (simp only: toward_def cos_periodic_pi2 sin_periodic_pi2 cos_30 sin_30 fst_conv snd_conv) simp


lemma draw_circle_paths:
  "draw_circle stroke sp cp c img =
     (c\<lparr>path := path c @ [Arc (fst sp) (snd sp) (distance sp cp) 0 (2 * pi)]\<rparr>,
      stroke (c\<lparr>path := path c @ [Arc (fst sp) (snd sp) (distance sp cp) 0 (2 * pi)]\<rparr>) img)"
  by (simp add: draw_circle_def Let_def distance_sqrt)

lemma draw_arrow_paths:
  "draw_arrow stroke sp cp c img =
     (let t = atan2 (snd cp - snd sp) (fst cp - fst sp);
          e1 = toward cp 15 (t + pi - pi / 6);
          e2 = toward cp 15 (t + pi + pi / 6);
          line = c\<lparr>path := path c @ [MoveTo (fst sp) (snd sp), LineTo (fst cp) (snd cp)]\<rparr>;
          head = c\<lparr>path := [MoveTo (fst cp) (snd cp), LineTo (fst e1) (snd e1),
                              MoveTo (fst cp) (snd cp), LineTo (fst e2) (snd e2)]\<rparr>
      in (head, stroke head (stroke line img)))"
  using chevron_eq [of cp "atan2 (snd cp - snd sp) (fst cp - fst sp)", symmetric]
  by (simp add: draw_arrow_def Let_def prod_eq_iff)

section \<open>Shape preview\<close>

lemma paint_shape_caps:
  "lineCap (fst (paint_shape stroke t a p c img)) = lineCap c
   \<and> lineJoin (fst (paint_shape stroke t a p c img)) = lineJoin c"
  by (simp add: paint_shape_def draw_circle_def draw_arrow_def Let_def)

lemma shape_ctx_eq:
  "lineCap c = Round \<Longrightarrow> lineJoin c = Round \<Longrightarrow>
   c\<lparr>path := [], strokeStyle := col, lineWidth := 4\<rparr> = shape_ctx col"
  by (cases c) (simp add: shape_ctx_def)

lemma in_gesture_start: "in_gesture s (getPos e) (startDrawing e s)"
  by (simp add: in_gesture_def startDrawing_def Let_def)

lemma draw_shape:
  assumes tool: "activeTool g = CIRCLE \<or> activeTool g = ARROW"
    and drawing: "isDrawing g" and ne: "history g \<noteq> []"
  shows "draw stroke e g =
      g\<lparr>ctx := fst (paint_shape stroke (activeTool g) (startPos g) (getPos e)
                 ((ctx g)\<lparr>path := [], strokeStyle := color g, lineWidth := 4\<rparr>)
                 (last (history g))),
        canvas := snd (paint_shape stroke (activeTool g) (startPos g) (getPos e)
                 ((ctx g)\<lparr>path := [], strokeStyle := color g, lineWidth := 4\<rparr>)
                 (last (history g)))\<rparr>"
proof -
  from tool have "activeTool g \<noteq> PEN" by auto
  with drawing ne show ?thesis
    by (simp add: draw_def last_opt_def Let_def split: prod.splits)
qed

lemma in_gesture_draw:
  assumes tool: "activeTool s = CIRCLE \<or> activeTool s = ARROW"
    and ne: "history s \<noteq> []" and g: "in_gesture s a g"
  shows "in_gesture s a (draw stroke e g)
    \<and> canvas (draw stroke e g) =
        snd (paint_shape stroke (activeTool s) a (getPos e) (shape_ctx (color s))
          (last (history s)))"
proof -
  from g have eqs: "isDrawing g" "activeTool g = activeTool s" "color g = color s"
    "history g = history s" "startPos g = a"
    and caps: "lineCap (ctx g) = Round" "lineJoin (ctx g) = Round"
    by (simp_all add: in_gesture_def)
  from caps have c0: "(ctx g)\<lparr>path := [], strokeStyle := color s, lineWidth := 4\<rparr>
      = shape_ctx (color s)"
    by (rule shape_ctx_eq)
  from tool ne eqs have d: "draw stroke e g =
      g\<lparr>ctx := fst (paint_shape stroke (activeTool s) a (getPos e) (shape_ctx (color s))
                 (last (history s))),
        canvas := snd (paint_shape stroke (activeTool s) a (getPos e) (shape_ctx (color s))
                 (last (history s)))\<rparr>"
    using draw_shape [of g stroke e] by (simp add: c0)
  have "lineCap (shape_ctx (color s)) = Round" "lineJoin (shape_ctx (color s)) = Round"
    by (simp_all add: shape_ctx_def)
  with eqs show ?thesis
    unfolding d by (simp add: in_gesture_def paint_shape_caps)
qed

lemma in_gesture_moves:
  assumes tool: "activeTool s = CIRCLE \<or> activeTool s = ARROW"
    and ne: "history s \<noteq> []"
  shows "in_gesture s a g \<Longrightarrow> in_gesture s a (run stroke g (map Move ms))"
proof (induction ms arbitrary: g)
  case Nil
  then show ?case by simp
next
  case (Cons m ms)
  from in_gesture_draw [OF tool ne Cons.prems]
  have "in_gesture s a (draw stroke m g)" by blast
  then have "in_gesture s a (run stroke (draw stroke m g) (map Move ms))"
    by (rule Cons.IH)
  then show ?case by simp
qed

lemma moves_canvas:
  assumes tool: "activeTool s = CIRCLE \<or> activeTool s = ARROW"
    and ne: "history s \<noteq> []" and g: "in_gesture s a g" and ms: "ms \<noteq> []"
  shows "in_gesture s a (run stroke g (map Move ms))
    \<and> canvas (run stroke g (map Move ms)) =
        snd (paint_shape stroke (activeTool s) a (getPos (last ms)) (shape_ctx (color s))
          (last (history s)))"
proof -
  from ms obtain ms' m where split: "ms = ms' @ [m]"
    by (cases ms rule: rev_cases) auto
  have before: "in_gesture s a (run stroke g (map Move ms'))"
    using tool ne g by (rule in_gesture_moves)
  have "run stroke g (map Move ms) = draw stroke m (run stroke g (map Move ms'))"
    by (simp add: split run_append)
  with in_gesture_draw [OF tool ne before, of stroke m] show ?thesis
    by (simp add: split)
qed

lemma draw_circle_tool:
  assumes "isDrawing s" and "activeTool s = CIRCLE" and "history s \<noteq> []"
  shows "draw stroke e s =
     (let sp = startPos s;
          cp = getPos e;
          arc = (ctx s)\<lparr>path := [Arc (fst sp) (snd sp) (distance sp cp) 0 (2 * pi)],
                          strokeStyle := color s, lineWidth := 4\<rparr>
      in s\<lparr>ctx := arc, canvas := stroke arc (last (history s))\<rparr>)"
proof -
  from assms have "activeTool s = CIRCLE \<or> activeTool s = ARROW" by simp
  from draw_shape [OF this assms(1) assms(3), of stroke e] assms(2) show ?thesis
    by (cases "ctx s") (simp add: paint_shape_def draw_circle_paths Let_def)
qed

lemma draw_arrow_tool:
  assumes "isDrawing s" and "activeTool s = ARROW" and "history s \<noteq> []"
  shows "draw stroke e s =
     (let sp = startPos s;
          cp = getPos e;
          t = atan2 (snd cp - snd sp) (fst cp - fst sp);
          e1 = toward cp 15 (t + pi - pi / 6);
          e2 = toward cp 15 (t + pi + pi / 6);
          line = (ctx s)\<lparr>path := [MoveTo (fst sp) (snd sp), LineTo (fst cp) (snd cp)],
                           strokeStyle := color s, lineWidth := 4\<rparr>;
          head = (ctx s)\<lparr>path := [MoveTo (fst cp) (snd cp), LineTo (fst e1) (snd e1),
                                    MoveTo (fst cp) (snd cp), LineTo (fst e2) (snd e2)],
                           strokeStyle := color s, lineWidth := 4\<rparr>
      in s\<lparr>ctx := head, canvas := stroke head (stroke line (last (history s)))\<rparr>)"
proof -
  from assms have "activeTool s = CIRCLE \<or> activeTool s = ARROW" by simp
  from draw_shape [OF this assms(1) assms(3), of stroke e] assms(2) show ?thesis
    by (cases "ctx s") (simp add: paint_shape_def draw_arrow_paths Let_def)
qed

lemma started_eval:
  "circle_started = pen_session\<lparr>activeTool := CIRCLE, isDrawing := True, startPos := (10, 10),
      ctx := \<lparr>path = [MoveTo 10 10], strokeStyle = ''#FF0000'', lineWidth = 4,
               lineCap = Round, lineJoin = Round\<rparr>\<rparr>"
  "arrow_started = pen_session\<lparr>activeTool := ARROW, isDrawing := True, startPos := (0, 0),
      ctx := \<lparr>path = [MoveTo 0 0], strokeStyle = ''#FF0000'', lineWidth = 4,
               lineCap = Round, lineJoin = Round\<rparr>\<rparr>"
  by (simp_all add: circle_started_def circle_ready_def arrow_started_def arrow_ready_def
      pen_session_eval startDrawing_def mouse_at_def Let_def)

text \<open>
  C8. Circle geometry. While a gesture is active with the Circle tool, a move event
  repaints the canvas from the most recent snapshot and strokes one path on it: one full
  arc, from angle 0 to \<open>2 * pi\<close>, centred at the anchor \<open>startPos\<close>, whose radius is the
  Euclidean distance of the anchor and the current point. With the anchor (10, 10) and
  the current point (10, 20) it is the circle of radius 10 around (10, 10).
\<close>

theorem circle_geometry:
  assumes "isDrawing s" and "activeTool s = CIRCLE" and "history s \<noteq> []"
  shows "(let sp = startPos s;
              cp = getPos e;
              arc = (ctx s)\<lparr>path := [Arc (fst sp) (snd sp) (distance sp cp) 0 (2 * pi)],
                              strokeStyle := color s, lineWidth := 4\<rparr>
          in draw stroke e s = s\<lparr>ctx := arc, canvas := stroke arc (last (history s))\<rparr>)
    \<and> (startPos s = (10, 10) \<and> getPos e = (10, 20) \<longrightarrow>
         path (ctx (draw stroke e s)) = [Arc 10 10 10 0 (2 * pi)])"
proof -
  have "distance (10, 10) (10, 20) = 10"
    by (simp add: distance_sqrt)
  then show ?thesis
    by (simp add: draw_circle_tool [OF assms] Let_def)
qed

theorem circle_geometry_witness:
  "isDrawing circle_started \<and> activeTool circle_started = CIRCLE
   \<and> history circle_started \<noteq> []
   \<and> startPos circle_started = (10, 10) \<and> getPos (mouse_at 10 20) = (10, 20)
   \<and> canvas (draw log_stroke (mouse_at 10 20) circle_started)
       = canvas pen_session
         @ [\<lparr>path = [Arc 10 10 10 0 (2 * pi)], strokeStyle = ''#FF0000'', lineWidth = 4,
             lineCap = Round, lineJoin = Round\<rparr>]"
proof -
  have a: "isDrawing circle_started" and b: "activeTool circle_started = CIRCLE"
    and c: "history circle_started \<noteq> []"
    and sp: "startPos circle_started = (10, 10)" and cp: "getPos (mouse_at 10 20) = (10, 20)"
    by (simp_all add: started_eval pen_session_eval mouse_at_def)
  have top: "last (history circle_started) = canvas pen_session"
    and cx: "ctx circle_started = \<lparr>path = [MoveTo 10 10], strokeStyle = ''#FF0000'',
      lineWidth = 4, lineCap = Round, lineJoin = Round\<rparr>"
    and col: "color circle_started = ''#FF0000''"
    by (simp_all add: started_eval pen_session_eval)
  have d: "distance (10, 10) (10, 20) = 10"
    by (simp add: distance_sqrt)
  from circle_geometry [OF a b c, where stroke = log_stroke and e = "mouse_at 10 20"]
  have "canvas (draw log_stroke (mouse_at 10 20) circle_started)
      = canvas pen_session
        @ [\<lparr>path = [Arc 10 10 10 0 (2 * pi)], strokeStyle = ''#FF0000'', lineWidth = 4,
            lineCap = Round, lineJoin = Round\<rparr>]"
    by (simp add: Let_def sp cp top cx col d log_stroke_def)
  with a b c sp cp show ?thesis by simp
qed

text \<open>
  C7. Arrow geometry. While a gesture is active with the Arrow tool, a move event
  repaints the canvas from the most recent snapshot and strokes two paths on it: the
  line from the anchor \<open>startPos\<close> to the current point, and a path of two segments
  that both start at the current point. With \<open>t\<close> the base angle
  \<open>atan2 (cp.y - sp.y) (cp.x - sp.x)\<close>, the segments end at the distance 15 from the
  current point, in the directions \<open>t + pi - pi / 6\<close> and \<open>t + pi + pi / 6\<close>; and
  \<open>t + pi\<close> is the direction from the current point back to the anchor, when the two
  differ. So the segments are 30 degrees to either side of the reversed line. With the
  anchor (0, 0) and the current point (100, 0) the reversed line points along the
  negative x axis and the segments end at \<open>(100 - 15 * (sqrt 3 / 2), 15 / 2)\<close> and
  \<open>(100 - 15 * (sqrt 3 / 2), - (15 / 2))\<close>.
\<close>

theorem arrow_geometry:
  assumes "isDrawing s" and "activeTool s = ARROW" and "history s \<noteq> []"
  shows "(let sp = startPos s;
              cp = getPos e;
              t = atan2 (snd cp - snd sp) (fst cp - fst sp);
              e1 = toward cp 15 (t + pi - pi / 6);
              e2 = toward cp 15 (t + pi + pi / 6);
              line = (ctx s)\<lparr>path := [MoveTo (fst sp) (snd sp), LineTo (fst cp) (snd cp)],
                               strokeStyle := color s, lineWidth := 4\<rparr>;
              head = (ctx s)\<lparr>path := [MoveTo (fst cp) (snd cp), LineTo (fst e1) (snd e1),
                                        MoveTo (fst cp) (snd cp), LineTo (fst e2) (snd e2)],
                               strokeStyle := color s, lineWidth := 4\<rparr>
          in draw stroke e s
               = s\<lparr>ctx := head, canvas := stroke head (stroke line (last (history s)))\<rparr>
             \<and> distance cp e1 = 15 \<and> distance cp e2 = 15
             \<and> (sp \<noteq> cp \<longrightarrow> toward cp (distance cp sp) (t + pi) = sp))
    \<and> (startPos s = (0, 0) \<and> getPos e = (100, 0) \<longrightarrow>
         path (ctx (draw stroke e s)) =
           [MoveTo 100 0, LineTo (100 - 15 * (sqrt 3 / 2)) (15 / 2),
            MoveTo 100 0, LineTo (100 - 15 * (sqrt 3 / 2)) (- (15 / 2))])"
proof -
  have general: "let sp = startPos s;
              cp = getPos e;
              t = atan2 (snd cp - snd sp) (fst cp - fst sp);
              e1 = toward cp 15 (t + pi - pi / 6);
              e2 = toward cp 15 (t + pi + pi / 6);
              line = (ctx s)\<lparr>path := [MoveTo (fst sp) (snd sp), LineTo (fst cp) (snd cp)],
                               strokeStyle := color s, lineWidth := 4\<rparr>;
              head = (ctx s)\<lparr>path := [MoveTo (fst cp) (snd cp), LineTo (fst e1) (snd e1),
                                        MoveTo (fst cp) (snd cp), LineTo (fst e2) (snd e2)],
                               strokeStyle := color s, lineWidth := 4\<rparr>
          in draw stroke e s
               = s\<lparr>ctx := head, canvas := stroke head (stroke line (last (history s)))\<rparr>
             \<and> distance cp e1 = 15 \<and> distance cp e2 = 15
             \<and> (sp \<noteq> cp \<longrightarrow> toward cp (distance cp sp) (t + pi) = sp)"
    using draw_arrow_tool [OF assms, of stroke e]
    by (simp add: Let_def distance_toward toward_back)
  have example: "path (ctx (draw stroke e s)) =
           [MoveTo 100 0, LineTo (100 - 15 * (sqrt 3 / 2)) (15 / 2),
            MoveTo 100 0, LineTo (100 - 15 * (sqrt 3 / 2)) (- (15 / 2))]"
    if sp: "startPos s = (0, 0)" and cp: "getPos e = (100, 0)"
  proof -
    have t: "atan2 (snd (getPos e) - snd (startPos s)) (fst (getPos e) - fst (startPos s)) = 0"
      by (simp add: sp cp atan2_def)
    have "path (ctx (draw stroke e s)) =
        [MoveTo 100 0,
         LineTo (fst (toward (100, 0) 15 (pi - pi / 6))) (snd (toward (100, 0) 15 (pi - pi / 6))),
         MoveTo 100 0,
         LineTo (fst (toward (100, 0) 15 (pi + pi / 6))) (snd (toward (100, 0) 15 (pi + pi / 6)))]"
      unfolding draw_arrow_tool [OF assms] Let_def t by (simp add: sp cp)
    then show ?thesis
      unfolding toward_150 toward_210 by simp
  qed
  from general example show ?thesis by blast
qed

theorem arrow_geometry_witness:
  "isDrawing arrow_started \<and> activeTool arrow_started = ARROW
   \<and> history arrow_started \<noteq> []
   \<and> startPos arrow_started = (0, 0) \<and> getPos (mouse_at 100 0) = (100, 0)
   \<and> startPos arrow_started \<noteq> getPos (mouse_at 100 0)
   \<and> path (ctx (draw log_stroke (mouse_at 100 0) arrow_started)) =
       [MoveTo 100 0, LineTo (100 - 15 * (sqrt 3 / 2)) (15 / 2),
        MoveTo 100 0, LineTo (100 - 15 * (sqrt 3 / 2)) (- (15 / 2))]
   \<and> length (canvas (draw log_stroke (mouse_at 100 0) arrow_started))
       = length (canvas pen_session) + 2
   \<and> toward (100, 0) (distance (100, 0) (0, 0)) pi = (0, 0)"
proof -
  have a: "isDrawing arrow_started" and b: "activeTool arrow_started = ARROW"
    and c: "history arrow_started \<noteq> []"
    and sp: "startPos arrow_started = (0, 0)" and cp: "getPos (mouse_at 100 0) = (100, 0)"
    by (simp_all add: started_eval pen_session_eval mouse_at_def)
  have top: "last (history arrow_started) = canvas pen_session"
    by (simp add: started_eval pen_session_eval)
  have t: "atan2 (snd ((100, 0) :: pos) - snd ((0, 0) :: pos))
      (fst ((100, 0) :: pos) - fst ((0, 0) :: pos)) = 0"
    by (simp add: atan2_def)
  have ne: "((0, 0) :: pos) \<noteq> (100, 0)" by simp
  note inst = arrow_geometry [OF a b c, where stroke = log_stroke and e = "mouse_at 100 0"]
  from inst sp cp have p: "path (ctx (draw log_stroke (mouse_at 100 0) arrow_started)) =
       [MoveTo 100 0, LineTo (100 - 15 * (sqrt 3 / 2)) (15 / 2),
        MoveTo 100 0, LineTo (100 - 15 * (sqrt 3 / 2)) (- (15 / 2))]"
    by blast
  from inst have q: "toward (100, 0) (distance (100, 0) (0, 0)) pi = (0, 0)"
    unfolding Let_def sp cp t using ne by simp
  from inst have "canvas (draw log_stroke (mouse_at 100 0) arrow_started)
      = log_stroke (ctx (draw log_stroke (mouse_at 100 0) arrow_started))
          (log_stroke ((ctx arrow_started)\<lparr>path := [MoveTo 0 0, LineTo 100 0],
              strokeStyle := color arrow_started, lineWidth := 4\<rparr>) (canvas pen_session))"
    unfolding Let_def sp cp top by simp
  then have l: "length (canvas (draw log_stroke (mouse_at 100 0) arrow_started))
      = length (canvas pen_session) + 2"
    by (simp add: log_stroke_def)
  from a b c sp cp ne p q l show ?thesis by simp
qed

lemma shape_ctx_path [simp]: "path (shape_ctx col) = []"
  by (simp add: shape_ctx_def)

lemma paint_circle_on:
  "snd (paint_shape stroke CIRCLE a p (shape_ctx col) base) =
     stroke ((shape_ctx col)\<lparr>path := [Arc (fst a) (snd a) (distance a p) 0 (2 * pi)]\<rparr>) base"
  by (simp add: paint_shape_def draw_circle_paths)

lemma paint_arrow_on:
  "snd (paint_shape stroke ARROW a p (shape_ctx col) base) =
     (let t = atan2 (snd p - snd a) (fst p - fst a);
          e1 = toward p 15 (t + pi - pi / 6);
          e2 = toward p 15 (t + pi + pi / 6);
          line = (shape_ctx col)\<lparr>path := [MoveTo (fst a) (snd a), LineTo (fst p) (snd p)]\<rparr>;
          head = (shape_ctx col)\<lparr>path := [MoveTo (fst p) (snd p), LineTo (fst e1) (snd e1),
                                             MoveTo (fst p) (snd p), LineTo (fst e2) (snd e2)]\<rparr>
      in stroke head (stroke line base))"
  by (simp add: paint_shape_def draw_arrow_paths Let_def)

text \<open>
  C2. No-trail shape preview. Take a state with the Circle or the Arrow tool active and
  a snapshot in the history, and a gesture that starts at \<open>e0\<close> and moves through the
  positions \<open>ms\<close> and then \<open>m\<close>. After the move to \<open>m\<close> the canvas is the most recent
  snapshot with one shape painted on it, whatever the earlier moves were, and the
  history is untouched: for the Circle tool one stroke of the arc around the anchor
  through \<open>m\<close>, for the Arrow tool the stroke of the line from the anchor to \<open>m\<close> and
  the stroke of the two chevron segments at \<open>m\<close>, in the active colour with width 4 and
  round caps and joins. The gesture end leaves that content on the canvas and pushes it
  as the new snapshot.
\<close>

theorem no_trail:
  assumes "activeTool s = CIRCLE \<or> activeTool s = ARROW" and "history s \<noteq> []"
  shows "let a = getPos e0;
             p = getPos m;
             base = last (history s);
             c0 = \<lparr>path = [], strokeStyle = color s, lineWidth = 4,
                   lineCap = Round, lineJoin = Round\<rparr>;
             arc = c0\<lparr>path := [Arc (fst a) (snd a) (distance a p) 0 (2 * pi)]\<rparr>;
             t = atan2 (snd p - snd a) (fst p - fst a);
             e1 = toward p 15 (t + pi - pi / 6);
             e2 = toward p 15 (t + pi + pi / 6);
             line = c0\<lparr>path := [MoveTo (fst a) (snd a), LineTo (fst p) (snd p)]\<rparr>;
             head = c0\<lparr>path := [MoveTo (fst p) (snd p), LineTo (fst e1) (snd e1),
                                MoveTo (fst p) (snd p), LineTo (fst e2) (snd e2)]\<rparr>;
             final = (if activeTool s = CIRCLE then stroke arc base
                      else stroke head (stroke line base))
         in canvas (run stroke s (Down e0 # map Move (ms @ [m]))) = final
            \<and> history (run stroke s (Down e0 # map Move (ms @ [m]))) = history s
            \<and> canvas (run stroke s (Down e0 # map Move (ms @ [m]) @ [Up])) = final
            \<and> history (run stroke s (Down e0 # map Move (ms @ [m]) @ [Up]))
                = push (history s) final
            \<and> \<not> isDrawing (run stroke s (Down e0 # map Move (ms @ [m]) @ [Up]))"
proof -
  let ?g = "run stroke (startDrawing e0 s) (map Move (ms @ [m]))"
  let ?img = "snd (paint_shape stroke (activeTool s) (getPos e0) (getPos m)
      (shape_ctx (color s)) (last (history s)))"
  have moved: "run stroke s (Down e0 # map Move (ms @ [m])) = ?g"
    by simp
  have ended: "run stroke s (Down e0 # map Move (ms @ [m]) @ [Up]) = stopDrawing ?g"
    using run_append [of stroke "startDrawing e0 s" "map Move (ms @ [m])" "[Up]"]
    by simp
  have "ms @ [m] \<noteq> []" by simp
  with assms in_gesture_start [of s e0]
  have "in_gesture s (getPos e0) ?g \<and>
      canvas ?g = snd (paint_shape stroke (activeTool s) (getPos e0) (getPos (last (ms @ [m])))
        (shape_ctx (color s)) (last (history s)))"
    by (rule moves_canvas)
  then have g: "in_gesture s (getPos e0) ?g" and cv: "canvas ?g = ?img"
    by simp_all
  from g have drawing: "isDrawing ?g" and hist: "history ?g = history s"
    by (simp_all add: in_gesture_def)
  from drawing have stop: "stopDrawing ?g = saveState (?g\<lparr>isDrawing := False\<rparr>)"
    by (simp add: stopDrawing_def)
  have stopped: "canvas (stopDrawing ?g) = ?img"
    unfolding stop using cv by (simp add: saveState_def)
  have pushed: "history (stopDrawing ?g) = push (history s) ?img"
    unfolding stop using cv hist by (simp add: saveState_def)
  have idle: "\<not> isDrawing (stopDrawing ?g)"
    by simp
  have explicit: "?img =
     (let a = getPos e0;
          p = getPos m;
          base = last (history s);
          c0 = \<lparr>path = [], strokeStyle = color s, lineWidth = 4,
                lineCap = Round, lineJoin = Round\<rparr>;
          arc = c0\<lparr>path := [Arc (fst a) (snd a) (distance a p) 0 (2 * pi)]\<rparr>;
          t = atan2 (snd p - snd a) (fst p - fst a);
          e1 = toward p 15 (t + pi - pi / 6);
          e2 = toward p 15 (t + pi + pi / 6);
          line = c0\<lparr>path := [MoveTo (fst a) (snd a), LineTo (fst p) (snd p)]\<rparr>;
          head = c0\<lparr>path := [MoveTo (fst p) (snd p), LineTo (fst e1) (snd e1),
                             MoveTo (fst p) (snd p), LineTo (fst e2) (snd e2)]\<rparr>
      in if activeTool s = CIRCLE then stroke arc base
         else stroke head (stroke line base))"
  proof (cases "activeTool s = CIRCLE")
    case True
    then show ?thesis
      by (simp add: paint_circle_on Let_def) (simp add: shape_ctx_def)
  next
    case False
    with assms(1) have "activeTool s = ARROW" by simp
    then show ?thesis
      by (simp add: paint_arrow_on Let_def) (simp add: shape_ctx_def)
  qed
  from cv hist stopped pushed idle show ?thesis
    unfolding moved ended explicit by (simp add: Let_def)
qed

theorem no_trail_witness:
  "(activeTool circle_ready = CIRCLE \<or> activeTool circle_ready = ARROW)
   \<and> history circle_ready \<noteq> []
   \<and> canvas (run log_stroke circle_ready
        [Down (mouse_at 10 10), Move (mouse_at 30 10), Move (mouse_at 10 20), Up])
     = canvas pen_session
       @ [\<lparr>path = [Arc 10 10 10 0 (2 * pi)],
           strokeStyle = ''#FF0000'', lineWidth = 4, lineCap = Round, lineJoin = Round\<rparr>]
   \<and> (activeTool arrow_ready = CIRCLE \<or> activeTool arrow_ready = ARROW)
   \<and> history arrow_ready \<noteq> []
   \<and> canvas (run log_stroke arrow_ready
        [Down (mouse_at 0 0), Move (mouse_at 40 30), Move (mouse_at 100 0), Up])
     = canvas pen_session
       @ [\<lparr>path = [MoveTo 0 0, LineTo 100 0],
           strokeStyle = ''#FF0000'', lineWidth = 4, lineCap = Round, lineJoin = Round\<rparr>,
          \<lparr>path = [MoveTo 100 0, LineTo (100 - 15 * (sqrt 3 / 2)) (15 / 2),
                    MoveTo 100 0, LineTo (100 - 15 * (sqrt 3 / 2)) (- (15 / 2))],
           strokeStyle = ''#FF0000'', lineWidth = 4, lineCap = Round, lineJoin = Round\<rparr>]"
proof -
  have cready: "circle_ready = pen_session\<lparr>activeTool := CIRCLE\<rparr>"
    and aready: "arrow_ready = pen_session\<lparr>activeTool := ARROW\<rparr>"
    by (simp_all add: circle_ready_def arrow_ready_def)
  have ctool: "activeTool circle_ready = CIRCLE \<or> activeTool circle_ready = ARROW"
    and cne: "history circle_ready \<noteq> []"
    and atool: "activeTool arrow_ready = CIRCLE \<or> activeTool arrow_ready = ARROW"
    and ane: "history arrow_ready \<noteq> []"
    by (simp_all add: cready aready pen_session_eval)
  have facts: "last (history circle_ready) = canvas pen_session"
    "color circle_ready = ''#FF0000''" "activeTool circle_ready = CIRCLE"
    "last (history arrow_ready) = canvas pen_session"
    "color arrow_ready = ''#FF0000''" "activeTool arrow_ready = ARROW"
    by (simp_all add: cready aready pen_session_eval)
  have pos: "getPos (mouse_at 10 10) = (10, 10)" "getPos (mouse_at 10 20) = (10, 20)"
    "getPos (mouse_at 0 0) = (0, 0)" "getPos (mouse_at 100 0) = (100, 0)"
    by (simp_all add: mouse_at_def)
  have d: "distance (10, 10) (10, 20) = 10"
    by (simp add: distance_sqrt)
  have t: "atan2 (snd ((100, 0) :: pos) - snd ((0, 0) :: pos))
      (fst ((100, 0) :: pos) - fst ((0, 0) :: pos)) = 0"
    by (simp add: atan2_def)
  from no_trail [OF ctool cne, where stroke = log_stroke and ?e0.0 = "mouse_at 10 10"
      and ms = "[mouse_at 30 10]" and m = "mouse_at 10 20"]
  have circle: "canvas (run log_stroke circle_ready
        [Down (mouse_at 10 10), Move (mouse_at 30 10), Move (mouse_at 10 20), Up])
     = canvas pen_session
       @ [\<lparr>path = [Arc 10 10 10 0 (2 * pi)],
           strokeStyle = ''#FF0000'', lineWidth = 4, lineCap = Round, lineJoin = Round\<rparr>]"
    unfolding Let_def facts pos d by (simp add: log_stroke_def)
  from no_trail [OF atool ane, where stroke = log_stroke and ?e0.0 = "mouse_at 0 0"
      and ms = "[mouse_at 40 30]" and m = "mouse_at 100 0"]
  have "canvas (run log_stroke arrow_ready
        [Down (mouse_at 0 0), Move (mouse_at 40 30), Move (mouse_at 100 0), Up])
     = canvas pen_session
       @ [\<lparr>path = [MoveTo 0 0, LineTo 100 0],
           strokeStyle = ''#FF0000'', lineWidth = 4, lineCap = Round, lineJoin = Round\<rparr>,
          \<lparr>path = [MoveTo 100 0,
                    LineTo (fst (toward (100, 0) 15 (pi - pi / 6)))
                           (snd (toward (100, 0) 15 (pi - pi / 6))),
                    MoveTo 100 0,
                    LineTo (fst (toward (100, 0) 15 (pi + pi / 6)))
                           (snd (toward (100, 0) 15 (pi + pi / 6)))],
           strokeStyle = ''#FF0000'', lineWidth = 4, lineCap = Round, lineJoin = Round\<rparr>]"
    unfolding Let_def facts pos t by (simp add: log_stroke_def)
  then have arrow: "canvas (run log_stroke arrow_ready
        [Down (mouse_at 0 0), Move (mouse_at 40 30), Move (mouse_at 100 0), Up])
     = canvas pen_session
       @ [\<lparr>path = [MoveTo 0 0, LineTo 100 0],
           strokeStyle = ''#FF0000'', lineWidth = 4, lineCap = Round, lineJoin = Round\<rparr>,
          \<lparr>path = [MoveTo 100 0, LineTo (100 - 15 * (sqrt 3 / 2)) (15 / 2),
                    MoveTo 100 0, LineTo (100 - 15 * (sqrt 3 / 2)) (- (15 / 2))],
           strokeStyle = ''#FF0000'', lineWidth = 4, lineCap = Round, lineJoin = Round\<rparr>]"
    unfolding toward_150 toward_210 by simp
  from ctool cne atool ane circle arrow show ?thesis by blast
qed

section \<open>Export\<close>

text \<open>
  C6, as stated: when the serialisation yields no payload, the exporter signals the
  failure to its caller. It fails: the caller is reached through \<open>onSave\<close> and
  \<open>onCancel\<close> only, and on a null blob \<open>handleSave\<close> invokes neither.
\<close>

theorem export_failure_counterexample:
  "handleSave (None :: nat option) = []"
  by (simp add: handleSave_def)

text \<open>
  C6, amended. When the serialisation yields no payload, the export does nothing: no
  callback is invoked, so no payload, empty or not, reaches the caller and no failure is
  signalled; the host still has its photo under edit, so the editor stays open. A
  payload that is there is handed to \<open>onSave\<close>, and nothing else is invoked.
\<close>

theorem export_failure_silent:
  "handleSave None = []
   \<and> host_after db_ok (Some photo) (handleSave None) = Some photo
   \<and> handleSave (Some b) = [OnSave b]"
  by (simp add: handleSave_def)

section \<open>Canvas fit\<close>

lemma canvas_dim_trunc:
  assumes "0 \<le> v" and "v < 2 ^ 31"
  shows "canvas_dim dflt v = nat \<lfloor>v\<rfloor>"
proof -
  from assms(1) have lo: "0 \<le> \<lfloor>v\<rfloor>" by simp
  from assms(2) have "\<lfloor>v\<rfloor> < 2 ^ 31"
    by (simp add: floor_less_iff)
  then have hi: "\<lfloor>v\<rfloor> < 2147483648" by simp
  with lo have "\<lfloor>v\<rfloor> mod 2 ^ 32 = \<lfloor>v\<rfloor>" by simp
  with assms(1) hi show ?thesis
    by (simp add: canvas_dim_def Let_def)
qed

lemma canvas_dim_nat: "n < 2 ^ 31 \<Longrightarrow> canvas_dim dflt (real n) = n"
proof -
  assume "n < 2 ^ 31"
  then have "real n < 2 ^ 31"
    by (metis of_nat_less_iff of_nat_numeral of_nat_power)
  then have "canvas_dim dflt (real n) = nat \<lfloor>real n\<rfloor>"
    by (intro canvas_dim_trunc) simp_all
  then show ?thesis by simp
qed

text \<open>
  C9, as stated: the dimensions of the canvas surface are the image dimensions
  multiplied by \<open>min (maxW / imgW) (maxH / imgH)\<close>. It fails for an image smaller than the
  viewport: in a window of 1000 by 1000, where \<open>maxH\<close> is 700, an image of 100 by 100
  keeps its dimensions, and the scale of the claim would make it 700 by 700. It fails
  also for a larger image whose scaled width is no whole number: an image of 4000 by
  3000 gives a surface of 933 by 700, not of 2800 / 3 by 700. (At both inputs the
  rounded arithmetic takes the same branch and gives the same surface as the exact one.)
\<close>

theorem canvas_fit_counterexample:
  "canvas_size exact_ops 1000 1000 100 100 = (100, 100)
   \<and> spec_fit 1000 (1000 * (7 / 10)) 100 100 = (700, 700)
   \<and> canvas_size exact_ops 1000 1000 4000 3000 = (933, 700)
   \<and> spec_fit 1000 (1000 * (7 / 10)) 4000 3000 = (2800 / 3, 700)"
  by (simp add: canvas_size_def fit_def spec_fit_def exact_ops_def canvas_dim_def Let_def)

text \<open>
  C9, amended. Let \<open>maxW\<close> be the inner width of the window and \<open>maxH\<close> 0.7 times its
  inner height, as the number arithmetic computes it. When the image exceeds the
  viewport in a dimension, the dimensions of the canvas surface are the image dimensions
  multiplied, both by the same factor \<open>ratio = min (maxW / imgW) (maxH / imgH)\<close>, in the
  number arithmetic, and each converted to the unsigned integer of the canvas attribute:
  cut to whole pixels when the product lies between 0 and \<open>2 ^ 31\<close>. With exact
  arithmetic the products are those of the scale the specification names. When the
  image fits the viewport, the canvas surface has the dimensions of the image: it is
  never enlarged.
\<close>

theorem canvas_fit:
  "let maxW = real innerWidth;
       maxH = fmul ops (real innerHeight) (flit ops (7 / 10));
       ratio = min (fdiv ops maxW (real imgW)) (fdiv ops maxH (real imgH));
       w = fmul ops (real imgW) ratio;
       h = fmul ops (real imgH) ratio
   in (real imgW > maxW \<or> real imgH > maxH \<longrightarrow>
         canvas_size ops innerWidth innerHeight imgW imgH = (canvas_dim 300 w, canvas_dim 150 h)
         \<and> (0 \<le> w \<and> w < 2 ^ 31 \<longrightarrow>
              fst (canvas_size ops innerWidth innerHeight imgW imgH) = nat \<lfloor>w\<rfloor>)
         \<and> (0 \<le> h \<and> h < 2 ^ 31 \<longrightarrow>
              snd (canvas_size ops innerWidth innerHeight imgW imgH) = nat \<lfloor>h\<rfloor>)
         \<and> (ops = exact_ops \<longrightarrow> (w, h) = spec_fit maxW maxH (real imgW) (real imgH)))
      \<and> (real imgW \<le> maxW \<and> real imgH \<le> maxH \<and> imgW < 2 ^ 31 \<and> imgH < 2 ^ 31 \<longrightarrow>
           canvas_size ops innerWidth innerHeight imgW imgH = (imgW, imgH))"
proof -
  define maxW where "maxW = real innerWidth"
  define maxH where "maxH = fmul ops (real innerHeight) (flit ops (7 / 10))"
  define ratio where "ratio = min (fdiv ops maxW (real imgW)) (fdiv ops maxH (real imgH))"
  define w where "w = fmul ops (real imgW) ratio"
  define h where "h = fmul ops (real imgH) ratio"
  note defs = maxW_def maxH_def ratio_def w_def h_def
  have scaled: "canvas_size ops innerWidth innerHeight imgW imgH
      = (canvas_dim 300 w, canvas_dim 150 h)"
    if "real imgW > maxW \<or> real imgH > maxH"
    using that by (auto simp: canvas_size_def fit_def Let_def defs)
  have wide: "fst (canvas_size ops innerWidth innerHeight imgW imgH) = nat \<lfloor>w\<rfloor>"
    if "real imgW > maxW \<or> real imgH > maxH" and "0 \<le> w" and "w < 2 ^ 31"
    using that by (simp add: scaled canvas_dim_trunc)
  have high: "snd (canvas_size ops innerWidth innerHeight imgW imgH) = nat \<lfloor>h\<rfloor>"
    if "real imgW > maxW \<or> real imgH > maxH" and "0 \<le> h" and "h < 2 ^ 31"
    using that by (simp add: scaled canvas_dim_trunc)
  have exact: "(w, h) = spec_fit maxW maxH (real imgW) (real imgH)" if "ops = exact_ops"
    using that by (simp add: defs spec_fit_def exact_ops_def Let_def)
  have kept: "canvas_size ops innerWidth innerHeight imgW imgH = (imgW, imgH)"
    if "real imgW \<le> maxW" and "real imgH \<le> maxH" and "imgW < 2 ^ 31" and "imgH < 2 ^ 31"
    using that by (simp add: canvas_size_def fit_def Let_def defs canvas_dim_nat)
  from scaled wide high exact kept
  have "(real imgW > maxW \<or> real imgH > maxH \<longrightarrow>
         canvas_size ops innerWidth innerHeight imgW imgH = (canvas_dim 300 w, canvas_dim 150 h)
         \<and> (0 \<le> w \<and> w < 2 ^ 31 \<longrightarrow>
              fst (canvas_size ops innerWidth innerHeight imgW imgH) = nat \<lfloor>w\<rfloor>)
         \<and> (0 \<le> h \<and> h < 2 ^ 31 \<longrightarrow>
              snd (canvas_size ops innerWidth innerHeight imgW imgH) = nat \<lfloor>h\<rfloor>)
         \<and> (ops = exact_ops \<longrightarrow> (w, h) = spec_fit maxW maxH (real imgW) (real imgH)))
      \<and> (real imgW \<le> maxW \<and> real imgH \<le> maxH \<and> imgW < 2 ^ 31 \<and> imgH < 2 ^ 31 \<longrightarrow>
           canvas_size ops innerWidth innerHeight imgW imgH = (imgW, imgH))"
    by blast
  then show ?thesis
    unfolding defs Let_def .
qed

theorem canvas_fit_witness:
  "(real (4000 :: nat) > real (1000 :: nat)
      \<or> real (3000 :: nat) > fmul exact_ops (real (1000 :: nat)) (flit exact_ops (7 / 10)))
   \<and> canvas_size exact_ops 1000 1000 4000 3000 = (933, 700)
   \<and> real (100 :: nat) \<le> real (1000 :: nat)
   \<and> real (100 :: nat) \<le> fmul exact_ops (real (1000 :: nat)) (flit exact_ops (7 / 10))
   \<and> canvas_size exact_ops 1000 1000 100 100 = (100, 100)"
proof -
  have ops: "fmul exact_ops = (\<lambda>a b. a * b)" "fdiv exact_ops = (\<lambda>a b. a / b)"
    "flit exact_ops = (\<lambda>a. a)"
    by (simp_all add: exact_ops_def)
  have big: "real (4000 :: nat) > real (1000 :: nat)
      \<or> real (3000 :: nat) > fmul exact_ops (real (1000 :: nat)) (flit exact_ops (7 / 10))"
    by simp
  have small: "real (100 :: nat) \<le> real (1000 :: nat)"
    "real (100 :: nat) \<le> fmul exact_ops (real (1000 :: nat)) (flit exact_ops (7 / 10))"
    by (simp_all add: ops)
  from canvas_fit [where ops = exact_ops and innerWidth = 1000 and innerHeight = 1000
      and imgW = 4000 and imgH = 3000]
  have "canvas_size exact_ops 1000 1000 4000 3000
      = (canvas_dim 300 (4000 * (7 / 30)), canvas_dim 150 (3000 * (7 / 30)))"
    by (simp add: Let_def ops)
  then have scaled: "canvas_size exact_ops 1000 1000 4000 3000 = (933, 700)"
    by (simp add: canvas_dim_def Let_def)
  from canvas_fit [where ops = exact_ops and innerWidth = 1000 and innerHeight = 1000
      and imgW = 100 and imgH = 100]
  have kept: "canvas_size exact_ops 1000 1000 100 100 = (100, 100)"
    by (simp add: Let_def ops)
  from big small scaled kept show ?thesis by blast
qed

end
